theory Spec2Isabelle
  imports Complex_Main "HOL-Library.Sublist"
begin

section \<open>Conventions of the embedding\<close>

text \<open>
  The program is the Inkscape extension \<^verbatim>\<open>edraw.py\<close>. Python values are embedded as follows.
  \<^item> The coordinates of a path and the points computed from them are reals (a Python
    \<^verbatim>\<open>complex\<close> is a \<^typ>\<open>complex\<close>): their arithmetic is exact, and a coordinate that is a
    negative zero is read as zero.
  \<^item> Where the sign of a zero decides what is printed (\<^verbatim>\<open>area_fast_path\<close>), a float is a real
    or the negative zero; where the rounding of a product decides what is printed
    (\<^verbatim>\<open>rgba_conv\<close>), the product is rounded to the nearest double.
  \<^item> A Python \<^verbatim>\<open>str\<close> is a \<^typ>\<open>string\<close> of ASCII characters.
  \<^item> An exception that leaves a function is the \<open>Inl\<close> value of a sum type.
\<close>

datatype error =
  IndexError | KeyError | ZeroDivisionError | ValueError | AttributeError | UnboundLocalError
  | OverflowError

section \<open>Floating-point values\<close>

text \<open>Rounding to the nearest integer, a tie going to the even one.\<close>

definition round_half_even :: "real \<Rightarrow> int" where
  "round_half_even x =
     (let f = \<lfloor>x\<rfloor>; d = x - real_of_int f
      in if d < 1 / 2 then f else if 1 / 2 < d then f + 1 else if even f then f else f + 1)"

text \<open>
  A float with the sign of zero: \<open>NegZero\<close> is \<^verbatim>\<open>-0.0\<close>, \<open>Num 0\<close> is \<^verbatim>\<open>0.0\<close>, and \<open>Num x\<close> is
  the float of value \<open>x\<close> otherwise. \<open>mk_float s r\<close> is the result of an operation whose value
  is \<open>r\<close> and whose sign, should the value be zero, is \<open>s\<close>. The operations follow IEEE 754 in
  the sign of a zero result: a difference of equal operands is \<^verbatim>\<open>-0.0\<close> only for
  \<^verbatim>\<open>(-0.0) - 0.0\<close>, a quotient has the product of the signs of its operands, and the arc
  tangent and the conversion to degrees keep the sign of their operand. The value of a result
  that is not zero is exact; the quotient is only taken of a divisor that is not zero.
\<close>

datatype pyfloat = NegZero | Num real

definition fl_val :: "pyfloat \<Rightarrow> real" where
  "fl_val x = (case x of NegZero \<Rightarrow> 0 | Num r \<Rightarrow> r)"

definition signbit :: "pyfloat \<Rightarrow> bool" where
  "signbit x = (case x of NegZero \<Rightarrow> True | Num r \<Rightarrow> r < 0)"

definition mk_float :: "bool \<Rightarrow> real \<Rightarrow> pyfloat" where
  "mk_float s r = (if r = 0 then (if s then NegZero else Num 0) else Num r)"

definition float_sub :: "pyfloat \<Rightarrow> pyfloat \<Rightarrow> pyfloat" where
  "float_sub x y = mk_float (signbit x \<and> \<not> signbit y) (fl_val x - fl_val y)"

definition float_div :: "pyfloat \<Rightarrow> pyfloat \<Rightarrow> pyfloat" where
  "float_div x y = mk_float (signbit x \<noteq> signbit y) (fl_val x / fl_val y)"

definition float_arctan :: "pyfloat \<Rightarrow> pyfloat" where
  "float_arctan x = mk_float (signbit x) (arctan (fl_val x))"

definition rad2deg :: "pyfloat \<Rightarrow> pyfloat" where
  "rad2deg x = mk_float (signbit x) (fl_val x * 180 / pi)"

text \<open>
  Rounding a real to the nearest double (IEEE 754 binary64, a tie going to the even
  significand): in the binade \<open>2 ^ e \<le> |x| < 2 ^ (e + 1)\<close>, and in the subnormal range with
  \<open>e = -1022\<close>, the doubles are the multiples of \<open>2 ^ (e - 52)\<close>. A result above \<open>double_max\<close>,
  the largest double, stands for an infinity. \<open>float_mul\<close> is the product of two doubles.
\<close>

definition round_double :: "real \<Rightarrow> real" where
  "round_double x =
     (if x = 0 then 0
      else let e = max \<lfloor>log 2 \<bar>x\<bar>\<rfloor> (- 1022);
               ulp = 2 powr real_of_int (e - 52)
           in real_of_int (round_half_even (x / ulp)) * ulp)"

definition double_max :: real where
  "double_max = 2 ^ 1024 - 2 ^ 971"

definition is_double :: "real \<Rightarrow> bool" where
  "is_double x = (round_double x = x \<and> \<bar>x\<bar> \<le> double_max)"

definition float_mul :: "real \<Rightarrow> real \<Rightarrow> real" where
  "float_mul a b = round_double (a * b)"

text \<open>\<^verbatim>\<open>int(x)\<close> of a finite float: the value cut towards zero.\<close>

definition py_int :: "real \<Rightarrow> int" where
  "py_int x = (if 0 \<le> x then \<lfloor>x\<rfloor> else \<lceil>x\<rceil>)"

section \<open>Bezier evaluation: \<^verbatim>\<open>cubic_bezier\<close>, \<^verbatim>\<open>quadratic_bezier\<close>\<close>

text \<open>
  A curve is the Python list \<^verbatim>\<open>[letter, [b0, b1, ...]]\<close>: a pair of the letter and the list of
  control points. Reading \<^verbatim>\<open>path[1][k]\<close> beyond the list raises \<^verbatim>\<open>IndexError\<close>.
\<close>

type_synonym curve = "string \<times> complex list"

definition cubic_bezier :: "curve \<Rightarrow> real \<Rightarrow> error + complex" where
  "cubic_bezier cb t =
     (if length (snd cb) < 4 then Inl IndexError
      else let b0 = snd cb ! 0; b1 = snd cb ! 1; b2 = snd cb ! 2; b3 = snd cb ! 3
           in Inr ((- b0 + 3 * b1 - 3 * b2 + b3) * of_real (t ^ 3)
                   + (3 * b0 - 6 * b1 + 3 * b2) * of_real (t ^ 2)
                   + (- 3 * b0 + 3 * b1) * of_real t + b0))"

definition quadratic_bezier :: "curve \<Rightarrow> real \<Rightarrow> error + complex" where
  "quadratic_bezier qb t =
     (if length (snd qb) < 3 then Inl IndexError
      else let b0 = snd qb ! 0; b1 = snd qb ! 1; b2 = snd qb ! 2
           in Inr ((b0 - 2 * b1 + b2) * of_real (t ^ 2) + (- 2 * b0 + 2 * b1) * of_real t + b0))"

section \<open>Curve sampling: \<^verbatim>\<open>interpolate_curved_path\<close>\<close>

text \<open>
  \<^verbatim>\<open>np.linspace(start, stop, num, endpoint=True)\<close> for \<^verbatim>\<open>num >= 0\<close>, as numpy computes it:
  \<^verbatim>\<open>y = arange(0, num)\<close>, \<^verbatim>\<open>div = num - 1\<close>, \<^verbatim>\<open>y = y * (delta / div) + start\<close> when \<^verbatim>\<open>div > 0\<close> and
  \<^verbatim>\<open>y = y * delta + start\<close> otherwise, and the last entry is overwritten with \<^verbatim>\<open>stop\<close> when
  \<^verbatim>\<open>num > 1\<close>.
\<close>

definition linspace :: "real \<Rightarrow> real \<Rightarrow> nat \<Rightarrow> real list" where
  "linspace start stop num =
     (let dv = int num - 1;
          delta = stop - start;
          y = map (\<lambda>i. if dv > 0 then real i * (delta / real_of_int dv) + start
                         else real i * delta + start) [0..<num]
      in if num > 1 then y[num - 1 := stop] else y)"

text \<open>
  \<^verbatim>\<open>samples = np.linspace(1/n, 1, n, endpoint=True)\<close>: \<^verbatim>\<open>1/n\<close> raises \<^verbatim>\<open>ZeroDivisionError\<close> for
  \<^verbatim>\<open>n = 0\<close> and numpy raises \<^verbatim>\<open>ValueError\<close> for a negative number of samples.
\<close>

definition samples :: "int \<Rightarrow> error + real list" where
  "samples n =
     (if n = 0 then Inl ZeroDivisionError
      else if n < 0 then Inl ValueError
      else Inr (linspace (1 / real_of_int n) 1 (nat n)))"

text \<open>The loop \<^verbatim>\<open>for t in samples: points.append(func(path, t))\<close>; the first exception ends it.\<close>

fun sample_loop :: "(real \<Rightarrow> error + complex) \<Rightarrow> real list \<Rightarrow> error + complex list" where
  "sample_loop func [] = Inr []"
| "sample_loop func (t # ts) =
     (case func t of
        Inl e \<Rightarrow> Inl e
      | Inr point \<Rightarrow> (case sample_loop func ts of Inl e \<Rightarrow> Inl e | Inr points \<Rightarrow> Inr (point # points)))"

text \<open>
  \<^verbatim>\<open>func\<close> is bound only for the letters \<^verbatim>\<open>C\<close> and \<^verbatim>\<open>Q\<close>; for any other letter the first call
  \<^verbatim>\<open>func(path, t)\<close> raises \<^verbatim>\<open>UnboundLocalError\<close>, and with no sample the loop body never runs.
\<close>

definition interpolate_curved_path :: "curve \<Rightarrow> int \<Rightarrow> error + complex list" where
  "interpolate_curved_path path n =
     (case samples n of
        Inl e \<Rightarrow> Inl e
      | Inr ts \<Rightarrow>
          if fst path = ''C'' then sample_loop (cubic_bezier path) ts
          else if fst path = ''Q'' then sample_loop (quadratic_bezier path) ts
          else if ts = [] then Inr []
          else Inl UnboundLocalError)"

section \<open>The path command interpreter of \<^verbatim>\<open>effect\<close>\<close>

text \<open>
  \<^verbatim>\<open>segs = svg_path.path.to_arrays()\<close> is a list of \<^verbatim>\<open>[letter, [operands]]\<close>. The two strings the
  loop builds are kept as the lists of the groups they are made of: \<^verbatim>\<open>points2\<close> holds one
  \<^verbatim>\<open>(x y)\<close> group per vertex, \<^verbatim>\<open>newp\<close> holds \<^verbatim>\<open>M x,y\<close>, \<^verbatim>\<open>L x,y\<close> and \<^verbatim>\<open>Z\<close> groups. The local
  variable \<^verbatim>\<open>closed\<close> of \<^verbatim>\<open>effect\<close> is \<open>None\<close> while it is unbound.
\<close>

type_synonym seg = "string \<times> real list"

datatype lin = LinM complex | LinL complex | LinZ

record pstate =
  PP :: complex
  CC :: complex
  newp :: "lin list"
  points2 :: "complex list"
  closed :: "bool option"

definition emit_line :: "complex \<Rightarrow> pstate \<Rightarrow> pstate" where
  "emit_line P st = st\<lparr>PP := P, newp := newp st @ [LinL P], points2 := points2 st @ [P]\<rparr>"

definition emit_curve :: "complex \<Rightarrow> complex \<Rightarrow> complex list \<Rightarrow> pstate \<Rightarrow> pstate" where
  "emit_curve C P ipoints st =
     st\<lparr>PP := P, CC := C, newp := newp st @ map LinL ipoints, points2 := points2 st @ ipoints\<rparr>"

text \<open>One iteration of \<^verbatim>\<open>for i in range(len(segs))\<close>, for the command \<^verbatim>\<open>segs[i]\<close>.\<close>

definition seg_step :: "int \<Rightarrow> seg \<Rightarrow> pstate \<Rightarrow> error + pstate" where
  "seg_step n sg st =
     (let c = fst sg; a = snd sg in
      if c = ''M'' then
        (if length a < 2 then Inl IndexError
         else let P = Complex (a ! 0) (a ! 1)
              in Inr (st\<lparr>PP := P, newp := newp st @ [LinM P], points2 := points2 st @ [P]\<rparr>))
      else if c = ''L'' then
        (if length a < 2 then Inl IndexError else Inr (emit_line (Complex (a ! 0) (a ! 1)) st))
      else if c = ''H'' then
        (if length a < 1 then Inl IndexError else Inr (emit_line (Complex (a ! 0) (Im (PP st))) st))
      else if c = ''V'' then
        (if length a < 1 then Inl IndexError else Inr (emit_line (Complex (Re (PP st)) (a ! 0)) st))
      else if c = ''C'' then
        (if length a < 6 then Inl IndexError
         else let seg_s = PP st; seg_c1 = Complex (a ! 0) (a ! 1);
                  seg_c2 = Complex (a ! 2) (a ! 3); seg_e = Complex (a ! 4) (a ! 5)
              in case interpolate_curved_path (''C'', [seg_s, seg_c1, seg_c2, seg_e]) n of
                   Inl e \<Rightarrow> Inl e
                 | Inr ipoints \<Rightarrow> Inr (emit_curve seg_c2 seg_e ipoints st))
      else if c = ''S'' then
        (if length a < 4 then Inl IndexError
         else let seg_s = PP st; seg_c1 = 2 * PP st - CC st;
                  seg_c2 = Complex (a ! 0) (a ! 1); seg_e = Complex (a ! 2) (a ! 3)
              in case interpolate_curved_path (''C'', [seg_s, seg_c1, seg_c2, seg_e]) n of
                   Inl e \<Rightarrow> Inl e
                 | Inr ipoints \<Rightarrow> Inr (emit_curve seg_c2 seg_e ipoints st))
      else if c = ''Q'' then
        (if length a < 4 then Inl IndexError
         else let seg_s = PP st; seg_c = Complex (a ! 0) (a ! 1); seg_e = Complex (a ! 2) (a ! 3)
              in case interpolate_curved_path (''Q'', [seg_s, seg_c, seg_e]) n of
                   Inl e \<Rightarrow> Inl e
                 | Inr ipoints \<Rightarrow> Inr (emit_curve seg_c seg_e ipoints st))
      else if c = ''T'' then
        (if length a < 2 then Inl IndexError
         else let seg_s = PP st; seg_c = 2 * PP st - CC st; seg_e = Complex (a ! 0) (a ! 1)
              in case interpolate_curved_path (''Q'', [seg_s, seg_c, seg_e]) n of
                   Inl e \<Rightarrow> Inl e
                 | Inr ipoints \<Rightarrow> Inr (emit_curve seg_c seg_e ipoints st))
      else if c = ''A'' then
        (if length a < 7 then Inl IndexError else Inr (emit_line (Complex (a ! 5) (a ! 6)) st))
      else if c = ''Z'' then Inr (st\<lparr>newp := newp st @ [LinZ], closed := Some True\<rparr>)
      else Inr st)"

fun segs_loop :: "int \<Rightarrow> seg list \<Rightarrow> pstate \<Rightarrow> error + pstate" where
  "segs_loop n [] st = Inr st"
| "segs_loop n (sg # sgs) st =
     (case seg_step n sg st of Inl e \<Rightarrow> Inl e | Inr st' \<Rightarrow> segs_loop n sgs st')"

text \<open>
  The number of operands that one iteration reads from a command with the given letter:
  a command that carries the operands of its kind has at least that many.
\<close>

definition operands_read :: "string \<Rightarrow> nat" where
  "operands_read c =
     (if c = ''M'' \<or> c = ''L'' \<or> c = ''T'' then 2
      else if c = ''H'' \<or> c = ''V'' then 1
      else if c = ''C'' then 6
      else if c = ''S'' \<or> c = ''Q'' then 4
      else if c = ''A'' then 7
      else 0)"

text \<open>
  The number of vertices that the specification assigns to one command when curves are
  sampled \<open>n\<close> times: one for a move, a line, a horizontal or vertical line and an arc,
  \<open>n\<close> for each of the four curve kinds, none for a close command or an unknown letter.
\<close>

definition spec_vertices :: "int \<Rightarrow> seg \<Rightarrow> nat" where
  "spec_vertices n sg =
     (if fst sg \<in> set [''M'', ''L'', ''H'', ''V'', ''A''] then 1
      else if fst sg \<in> set [''C'', ''S'', ''Q'', ''T''] then nat n
      else 0)"

text \<open>
  The interpreter as the specification describes it (sections 4.1 and 4.2). The two Bezier
  formulas, the parameter values \<open>1/n, 2/n, ..., n/n\<close>, and for one command and the cursor
  (current point, last control point) the vertices the command emits and the cursor after
  it. \<open>spec_groups\<close> is the list of these groups of vertices, one group per command.
\<close>

definition spec_cubic :: "complex \<Rightarrow> complex \<Rightarrow> complex \<Rightarrow> complex \<Rightarrow> real \<Rightarrow> complex" where
  "spec_cubic b0 b1 b2 b3 t =
     (- b0 + 3 * b1 - 3 * b2 + b3) * of_real (t ^ 3) + (3 * b0 - 6 * b1 + 3 * b2) * of_real (t ^ 2)
       + (- 3 * b0 + 3 * b1) * of_real t + b0"

definition spec_quadratic :: "complex \<Rightarrow> complex \<Rightarrow> complex \<Rightarrow> real \<Rightarrow> complex" where
  "spec_quadratic b0 b1 b2 t =
     (b0 - 2 * b1 + b2) * of_real (t ^ 2) + (- 2 * b0 + 2 * b1) * of_real t + b0"

definition spec_samples :: "int \<Rightarrow> real list" where
  "spec_samples n = map (\<lambda>k. real k / real_of_int n) [1..<Suc (nat n)]"

definition spec_command ::
  "int \<Rightarrow> seg \<Rightarrow> complex \<times> complex \<Rightarrow> complex list \<times> complex \<times> complex" where
  "spec_command n sg cursor =
     (let c = fst sg; a = snd sg; cur = fst cursor; ctl = snd cursor in
      if c = ''M'' \<or> c = ''L'' then ([Complex (a ! 0) (a ! 1)], Complex (a ! 0) (a ! 1), ctl)
      else if c = ''H'' then ([Complex (a ! 0) (Im cur)], Complex (a ! 0) (Im cur), ctl)
      else if c = ''V'' then ([Complex (Re cur) (a ! 0)], Complex (Re cur) (a ! 0), ctl)
      else if c = ''C'' then
        (map (spec_cubic cur (Complex (a ! 0) (a ! 1)) (Complex (a ! 2) (a ! 3)) (Complex (a ! 4) (a ! 5)))
           (spec_samples n),
         Complex (a ! 4) (a ! 5), Complex (a ! 2) (a ! 3))
      else if c = ''S'' then
        (map (spec_cubic cur (2 * cur - ctl) (Complex (a ! 0) (a ! 1)) (Complex (a ! 2) (a ! 3)))
           (spec_samples n),
         Complex (a ! 2) (a ! 3), Complex (a ! 0) (a ! 1))
      else if c = ''Q'' then
        (map (spec_quadratic cur (Complex (a ! 0) (a ! 1)) (Complex (a ! 2) (a ! 3))) (spec_samples n),
         Complex (a ! 2) (a ! 3), Complex (a ! 0) (a ! 1))
      else if c = ''T'' then
        (map (spec_quadratic cur (2 * cur - ctl) (Complex (a ! 0) (a ! 1))) (spec_samples n),
         Complex (a ! 0) (a ! 1), 2 * cur - ctl)
      else if c = ''A'' then ([Complex (a ! 5) (a ! 6)], Complex (a ! 5) (a ! 6), ctl)
      else ([], cur, ctl))"

fun spec_groups :: "int \<Rightarrow> seg list \<Rightarrow> complex \<times> complex \<Rightarrow> complex list list" where
  "spec_groups n [] cursor = []"
| "spec_groups n (sg # sgs) cursor =
     fst (spec_command n sg cursor) # spec_groups n sgs (snd (spec_command n sg cursor))"

text \<open>
  The start of the body of \<^verbatim>\<open>for svg_path in svg_paths\<close>: \<^verbatim>\<open>PP\<close>, \<^verbatim>\<open>CC\<close>, \<^verbatim>\<open>newp\<close> and \<^verbatim>\<open>points2\<close> are
  assigned afresh, \<^verbatim>\<open>closed\<close> is not: it keeps whatever the paths before left in it.
\<close>

definition path_init :: "bool option \<Rightarrow> pstate" where
  "path_init cl = \<lparr>PP = 0, CC = 0, newp = [], points2 = [], closed = cl\<rparr>"

section \<open>Style mapping: \<^verbatim>\<open>gen_style\<close>\<close>

text \<open>
  \<^verbatim>\<open>re.search('fill:(.+?);', sty)\<close>. At one start position the pattern needs the text
  \<^verbatim>\<open>fill:\<close>, then one character other than a newline (it may be a semicolon), then as few
  further characters other than a newline as possible up to a semicolon; the group is what
  lies between \<^verbatim>\<open>fill:\<close> and that semicolon. The search returns the match at the leftmost
  start position that has one.
\<close>

fun lazy_dot_plus :: "string \<Rightarrow> string \<Rightarrow> string option" where
  "lazy_dot_plus acc [] = None"
| "lazy_dot_plus acc (d # ds) =
     (if d = CHR '';'' then Some acc
      else if d = CHR 0x0A then None
      else lazy_dot_plus (acc @ [d]) ds)"

definition match_fill_here :: "string \<Rightarrow> string option" where
  "match_fill_here s =
     (if take 5 s = ''fill:'' then
        (case drop 5 s of
           [] \<Rightarrow> None
         | c # cs \<Rightarrow> if c = CHR 0x0A then None else lazy_dot_plus [c] cs)
      else None)"

fun re_search_fill :: "string \<Rightarrow> string option" where
  "re_search_fill [] = None"
| "re_search_fill (c # cs) =
     (case match_fill_here (c # cs) of Some v \<Rightarrow> Some v | None \<Rightarrow> re_search_fill cs)"

text \<open>
  \<^verbatim>\<open>re.search(...).group(1)\<close> raises \<^verbatim>\<open>AttributeError\<close> when the search returns \<^verbatim>\<open>None\<close>.
  \<^verbatim>\<open>'{}'.format(layer_alpha)\<close> prints a float; the printing function of Python is the parameter
  \<open>str_float\<close>.
\<close>

definition gen_style :: "(real \<Rightarrow> string) \<Rightarrow> string \<Rightarrow> string \<Rightarrow> real \<Rightarrow> error + (string \<times> string)" where
  "gen_style str_float old_sty layer_color layer_alpha =
     (case re_search_fill old_sty of
        None \<Rightarrow> Inl AttributeError
      | Some sty_fill \<Rightarrow>
          if sty_fill \<noteq> ''none'' then
            Inr (''fill:'' @ layer_color @ '';stroke:none;opacity:'' @ str_float layer_alpha, ''false'')
          else
            Inr (''fill:none;stroke:'' @ layer_color @ '';stroke-width:1;opacity:''
                   @ str_float layer_alpha, ''true''))"

section \<open>Scan direction of a path: \<^verbatim>\<open>area_fast_path\<close>\<close>

text \<open>
  \<^verbatim>\<open>'{:.0f}'.format(x)\<close> prints the integer nearest to the magnitude of \<open>x\<close>, a tie going to
  the even one, with a minus sign in front when the sign of \<open>x\<close> is negative: a small
  negative \<open>x\<close> and the negative zero print as \<^verbatim>\<open>-0\<close>.
\<close>

definition dec_digit :: "nat \<Rightarrow> char" where
  "dec_digit d = ''0123456789'' ! d"

fun dec_digits :: "nat \<Rightarrow> string" where
  "dec_digits n = (if n < 10 then [dec_digit n] else dec_digits (n div 10) @ [dec_digit (n mod 10)])"

definition format_0f :: "pyfloat \<Rightarrow> string" where
  "format_0f x =
     (if signbit x then [CHR ''-''] else []) @ dec_digits (nat (round_half_even \<bar>fl_val x\<bar>))"

text \<open>
  The result is the pair of the messages given to \<^verbatim>\<open>inkex.errormsg\<close> and the returned string.
  \<^verbatim>\<open>(points[2]-points[0]) != 0\<close> is false for a difference that is either zero.
\<close>

definition area_fast_path :: "pyfloat list \<Rightarrow> string list \<times> string" where
  "area_fast_path points =
     (if length points < 4 then
        ([''Path consists of less than 2 points. The angle can not be calculated and is set to 0 deg.''],
         ''0 deg'')
      else if fl_val (float_sub (points ! 2) (points ! 0)) \<noteq> 0 then
        (let tan = float_div (float_sub (points ! 3) (points ! 1)) (float_sub (points ! 2) (points ! 0))
         in ([], format_0f (rad2deg (float_arctan tan)) @ '' deg''))
      else ([], ''90 deg''))"

section \<open>Colours: \<^verbatim>\<open>rgba_conv\<close>, \<^verbatim>\<open>get_layer_attribs\<close> and the colour cycle\<close>

text \<open>
  An entry of a colour list is a Python \<^verbatim>\<open>int\<close> or \<^verbatim>\<open>float\<close>. \<^verbatim>\<open>'{:02x}'.format(k)\<close> prints an
  \<^verbatim>\<open>int\<close> in lower-case hexadecimal, padded with zeros to two characters, a minus sign in
  front of a negative one; on a \<^verbatim>\<open>float\<close> it raises \<^verbatim>\<open>ValueError\<close>.
\<close>

datatype pynum = PyInt int | PyFloat real

definition hex_digit :: "nat \<Rightarrow> char" where
  "hex_digit d = ''0123456789abcdef'' ! d"

fun hex_digits :: "nat \<Rightarrow> string" where
  "hex_digits n = (if n < 16 then [hex_digit n] else hex_digits (n div 16) @ [hex_digit (n mod 16)])"

definition format_02x :: "int \<Rightarrow> string" where
  "format_02x k =
     (if k < 0 then CHR ''-'' # hex_digits (nat (- k))
      else let ds = hex_digits (nat k) in replicate (2 - length ds) CHR ''0'' @ ds)"

definition py_format_02x :: "pynum \<Rightarrow> error + string" where
  "py_format_02x v = (case v of PyInt k \<Rightarrow> Inr (format_02x k) | PyFloat x \<Rightarrow> Inl ValueError)"

text \<open>
  \<^verbatim>\<open>int(v * 100)\<close>: an \<^verbatim>\<open>int\<close> is multiplied exactly; a float is multiplied as a double and
  the product cut towards zero, and \<^verbatim>\<open>int\<close> raises \<^verbatim>\<open>OverflowError\<close> on an infinite product.
\<close>

definition int_times_100 :: "pynum \<Rightarrow> error + int" where
  "int_times_100 v =
     (case v of
        PyInt k \<Rightarrow> Inr (k * 100)
      | PyFloat x \<Rightarrow>
          (let p = float_mul x 100
           in if double_max < \<bar>p\<bar> then Inl OverflowError else Inr (py_int p)))"

definition rgba_conv :: "pynum list \<Rightarrow> error + string" where
  "rgba_conv color =
     (if length color < 3 then Inl IndexError
      else case py_format_02x (color ! 0) of
        Inl e \<Rightarrow> Inl e
      | Inr r \<Rightarrow> (case py_format_02x (color ! 1) of
          Inl e \<Rightarrow> Inl e
        | Inr g \<Rightarrow> (case py_format_02x (color ! 2) of
            Inl e \<Rightarrow> Inl e
          | Inr b \<Rightarrow>
              let rgba = ''#'' @ r @ g @ b
              in if length color = 3 then Inr (rgba @ ''FF'')
                 else (case int_times_100 (color ! 3) of
                         Inl e \<Rightarrow> Inl e
                       | Inr k \<Rightarrow> Inr (rgba @ format_02x k)))))"

text \<open>
  \<^verbatim>\<open>int(s, 16)\<close> for the strings \<^verbatim>\<open>color[-2:]\<close> can be, of at most two characters: white space
  (tab, line feed, vertical tab, form feed, carriage return, space) around the literal is
  dropped, one sign may come first, and what remains must be hexadecimal digits, at least
  one; anything else raises \<^verbatim>\<open>ValueError\<close>. (A prefix \<^verbatim>\<open>0x\<close> or an underscore
  needs three characters to be part of a literal that Python accepts.)
\<close>

definition py_isspace :: "char \<Rightarrow> bool" where
  "py_isspace c = (of_char c \<in> {9, 10, 11, 12, 13, 32 :: nat})"

definition strip :: "string \<Rightarrow> string" where
  "strip s = rev (dropWhile py_isspace (rev (dropWhile py_isspace s)))"

definition hex_val :: "char \<Rightarrow> nat option" where
  "hex_val c =
     (if c \<in> set ''0123456789'' then Some (of_char c - 48)
      else if c \<in> set ''abcdef'' then Some (of_char c - 87)
      else if c \<in> set ''ABCDEF'' then Some (of_char c - 55)
      else None)"

fun hex_nat :: "nat \<Rightarrow> string \<Rightarrow> nat option" where
  "hex_nat acc [] = Some acc"
| "hex_nat acc (c # cs) = (case hex_val c of None \<Rightarrow> None | Some d \<Rightarrow> hex_nat (16 * acc + d) cs)"

definition int_base16 :: "string \<Rightarrow> error + int" where
  "int_base16 s =
     (let t = strip s;
          neg = (t \<noteq> [] \<and> hd t = CHR ''-'');
          ds = (if t \<noteq> [] \<and> (hd t = CHR ''-'' \<or> hd t = CHR ''+'') then tl t else t)
      in if ds = [] then Inl ValueError
         else case hex_nat 0 ds of
                None \<Rightarrow> Inl ValueError
              | Some k \<Rightarrow> Inr (if neg then - int k else int k))"

text \<open>
  A layer element with the three attributes the function reads; \<open>None\<close> is an absent
  attribute. \<^verbatim>\<open>get_opt_attrib\<close> returns the alternative value for an absent attribute.
\<close>

record svg_layer =
  label :: "string option"
  layer_style :: "string option"
  insensitive :: "string option"

record layer_attribs =
  name :: string
  hidden :: string
  locked :: string
  colorRGB :: string
  alpha :: real

definition get_opt_attrib :: "string option \<Rightarrow> string \<Rightarrow> string" where
  "get_opt_attrib attrib alt_attrib_val = (case attrib of None \<Rightarrow> alt_attrib_val | Some v \<Rightarrow> v)"

definition get_layer_attribs :: "svg_layer \<Rightarrow> string \<Rightarrow> error + layer_attribs" where
  "get_layer_attribs lay color =
     (case label lay of
        None \<Rightarrow> Inl KeyError
      | Some nm \<Rightarrow>
          let hid = (if get_opt_attrib (layer_style lay) ''false'' = ''display:inline''
                     then ''true'' else ''false'');
              lck = get_opt_attrib (insensitive lay) ''false''
          in (case int_base16 (drop (length color - 2) color) of
                Inl e \<Rightarrow> Inl e
              | Inr k \<Rightarrow> Inr \<lparr>name = nm, hidden = hid, locked = lck, colorRGB = take 7 color,
                              alpha = real_of_int k / 255\<rparr>))"

text \<open>
  The head of the layer loop, \<^verbatim>\<open>for i, svg_layer in enumerate(svg_layer_list)\<close> with
  \<^verbatim>\<open>layer_color = color_cycle[i % len(color_cycle)]\<close>: each layer paired with the colour it
  receives. The modulo raises \<^verbatim>\<open>ZeroDivisionError\<close> on an empty cycle.
\<close>

fun layer_loop :: "string list \<Rightarrow> nat \<Rightarrow> 'l list \<Rightarrow> error + ('l \<times> string) list" where
  "layer_loop color_cycle i [] = Inr []"
| "layer_loop color_cycle i (lay # lays) =
     (if length color_cycle = 0 then Inl ZeroDivisionError
      else case layer_loop color_cycle (Suc i) lays of
             Inl e \<Rightarrow> Inl e
           | Inr rest \<Rightarrow> Inr ((lay, color_cycle ! (i mod length color_cycle)) # rest))"

section \<open>One path of a layer: the body of \<^verbatim>\<open>for svg_path in svg_paths\<close>\<close>

text \<open>
  \<^verbatim>\<open>angle_points\<close> are the numbers that the regular expression finds in \<^verbatim>\<open>newp\<close>: the two
  coordinates of every \<^verbatim>\<open>M\<close> and \<^verbatim>\<open>L\<close> group, as \<^verbatim>\<open>'{:f}'\<close> printed them (six decimals, a tie
  going to the even digit, a minus sign in front of a negative coordinate even when it
  prints as zero), and nothing for a \<^verbatim>\<open>Z\<close> group.
\<close>

definition format_f_value :: "real \<Rightarrow> pyfloat" where
  "format_f_value x = mk_float (x < 0) (real_of_int (round_half_even (x * 1000000)) / 1000000)"

definition lin_numbers :: "lin \<Rightarrow> pyfloat list" where
  "lin_numbers g =
     (case g of
        LinM p \<Rightarrow> [format_f_value (Re p), format_f_value (Im p)]
      | LinL p \<Rightarrow> [format_f_value (Re p), format_f_value (Im p)]
      | LinZ \<Rightarrow> [])"

record config =
  num_int_points :: int
  apply_on_svg :: bool
  calc_rot :: bool

text \<open>
  A path element: its \<^verbatim>\<open>style\<close> attribute (\<open>None\<close> when absent, and then reading it raises
  \<^verbatim>\<open>KeyError\<close>) and the commands of its \<^verbatim>\<open>d\<close> attribute.
\<close>

record svg_path =
  path_style :: "string option"
  path_segs :: "seg list"

text \<open>
  The element added to the layer reference: \<^verbatim>\<open>POLYGON\<close> with \<^verbatim>\<open>outline\<close>, \<^verbatim>\<open>area_fast\<close> and
  \<^verbatim>\<open>points\<close>, or \<^verbatim>\<open>LINES\<close> with \<^verbatim>\<open>points\<close>.
\<close>

datatype ely_element = POLYGON string string "complex list" | LINES "complex list"

record path_result =
  element :: ely_element
  messages :: "string list"
  written :: "(string \<times> lin list) option"
  closed_out :: "bool option"

text \<open>
  \<^verbatim>\<open>if closed:\<close> reads the local variable \<^verbatim>\<open>closed\<close>, which raises \<^verbatim>\<open>UnboundLocalError\<close> while
  nothing has been assigned to it. \<open>written\<close> is what \<^verbatim>\<open>apply_on_svg\<close> writes back to the
  path: the style \<^verbatim>\<open>ns\<close> and the path data \<^verbatim>\<open>newp\<close>.
\<close>

definition path_item ::
  "(real \<Rightarrow> string) \<Rightarrow> config \<Rightarrow> string \<Rightarrow> real \<Rightarrow> bool option \<Rightarrow> svg_path \<Rightarrow> error + path_result" where
  "path_item str_float cfg layer_color layer_alpha cl sp =
     (case path_style sp of
        None \<Rightarrow> Inl KeyError
      | Some s \<Rightarrow>
         (case segs_loop (num_int_points cfg) (path_segs sp) (path_init cl) of
            Inl e \<Rightarrow> Inl e
          | Inr st \<Rightarrow>
             (let angle_points = concat (map lin_numbers (newp st));
                  wa = (if calc_rot cfg then area_fast_path angle_points else ([], ''0 deg''))
              in (case closed st of
                    None \<Rightarrow> Inl UnboundLocalError
                  | Some True \<Rightarrow>
                     (case gen_style str_float s layer_color layer_alpha of
                        Inl e \<Rightarrow> Inl e
                      | Inr nso \<Rightarrow>
                          Inr \<lparr>element = POLYGON (snd nso) (snd wa) (points2 st),
                               messages = fst wa,
                               written = (if apply_on_svg cfg then Some (fst nso, newp st) else None),
                               closed_out = closed st\<rparr>)
                  | Some False \<Rightarrow>
                     (let ns = ''fill:none;stroke:'' @ layer_color @ '';stroke-width:1;opacity:''
                                 @ str_float layer_alpha
                      in Inr \<lparr>element = LINES (points2 st),
                              messages = fst wa,
                              written = (if apply_on_svg cfg then Some (ns, newp st) else None),
                              closed_out = closed st\<rparr>)))))"

text \<open>
  The loop over the paths: \<^verbatim>\<open>closed\<close> is a local variable of \<^verbatim>\<open>effect\<close>, so each path starts
  with the value the path before it left. The first exception ends the run.
\<close>

fun paths_loop ::
  "(real \<Rightarrow> string) \<Rightarrow> config \<Rightarrow> string \<Rightarrow> real \<Rightarrow> bool option \<Rightarrow> svg_path list
     \<Rightarrow> error + (path_result list \<times> bool option)" where
  "paths_loop str_float cfg layer_color layer_alpha cl [] = Inr ([], cl)"
| "paths_loop str_float cfg layer_color layer_alpha cl (sp # sps) =
     (case path_item str_float cfg layer_color layer_alpha cl sp of
        Inl e \<Rightarrow> Inl e
      | Inr r \<Rightarrow>
         (case paths_loop str_float cfg layer_color layer_alpha (closed_out r) sps of
            Inl e \<Rightarrow> Inl e
          | Inr rest \<Rightarrow> Inr (r # fst rest, snd rest)))"

section \<open>Properties of the Bezier evaluation\<close>

text \<open>
  Claim C4. At \<open>t = 1\<close> the cubic polynomial yields its fourth control point \<open>b3\<close> and the
  quadratic polynomial yields its third control point \<open>b2\<close>, for all control points, exactly
  (exact arithmetic on complex numbers, so both components agree).
\<close>

theorem bezier_at_one_is_endpoint:
  "cubic_bezier (l, [b0, b1, b2, b3]) 1 = Inr b3 \<and> quadratic_bezier (l', [c0, c1, c2]) 1 = Inr c2"
  by (simp add: cubic_bezier_def quadratic_bezier_def algebra_simps)

section \<open>Properties of the curve sampling\<close>

lemma length_linspace: "length (linspace a b n) = n"
  by (simp add: linspace_def Let_def)

lemma linspace_unit:
  assumes "1 \<le> n"
  shows "linspace (1 / real n) 1 n = map (\<lambda>k. real k / real n) [1..<Suc n]"
proof (rule nth_equalityI)
  show "length (linspace (1 / real n) 1 n) = length (map (\<lambda>k. real k / real n) [1..<Suc n])"
    by (simp add: length_linspace)
next
  fix i assume "i < length (linspace (1 / real n) 1 n)"
  then have i: "i < n" by (simp add: length_linspace)
  show "linspace (1 / real n) 1 n ! i = map (\<lambda>k. real k / real n) [1..<Suc n] ! i"
  proof (cases "n = 1")
    case True
    with i show ?thesis by (simp add: linspace_def Let_def)
  next
    case False
    with assms have n: "1 < n" by simp
    have lhs: "linspace (1 / real n) 1 n ! i =
        (if i = n - 1 then 1 else real i * ((1 - 1 / real n) / (real n - 1)) + 1 / real n)"
      using n i by (simp add: linspace_def Let_def nth_list_update)
    have rhs: "map (\<lambda>k. real k / real n) [1..<Suc n] ! i = (real i + 1) / real n"
      using i by (simp add: nth_append add.commute del: upt_Suc)
    have "(if i = n - 1 then 1 else real i * ((1 - 1 / real n) / (real n - 1)) + 1 / real n)
          = (real i + 1) / real n"
    proof (cases "i = n - 1")
      case True
      with n show ?thesis by (simp add:)
    next
      case False
      have "real n - 1 \<noteq> 0" "real n \<noteq> 0" using n by auto
      then have "real i * ((1 - 1 / real n) / (real n - 1)) + 1 / real n = (real i + 1) / real n"
        by (simp add: field_simps)
      with False show ?thesis by simp
    qed
    with lhs rhs show ?thesis by simp
  qed
qed

lemma sample_loop_Inr:
  "(\<And>t. t \<in> set ts \<Longrightarrow> f t = Inr (g t)) \<Longrightarrow> sample_loop f ts = Inr (map g ts)"
  by (induction ts) auto

lemma samples_pos:
  assumes "1 \<le> n"
  shows "samples n = Inr (map (\<lambda>k. real k / real_of_int n) [1..<Suc (nat n)])"
  using linspace_unit[of "nat n"] assms by (simp add: samples_def)

lemma fractions_strictly_increasing:
  assumes "1 \<le> n"
  shows "sorted_wrt (<) (map (\<lambda>k. real k / real_of_int n) [1..<Suc (nat n)])"
proof -
  have "sorted_wrt (\<lambda>j k. real j / real_of_int n < real k / real_of_int n) [1..<Suc (nat n)]"
    using assms by (intro sorted_wrt_mono_rel[OF _ sorted_wrt_upt]) (simp add: divide_strict_right_mono)
  then show ?thesis by (simp only: sorted_wrt_map)
qed

text \<open>
  Claim C3. For every \<open>n \<ge> 1\<close> the parameter values that \<^verbatim>\<open>interpolate_curved_path\<close> uses are
  \<open>1/n, 2/n, ..., n/n\<close>: there are \<open>n\<close> of them, strictly increasing, \<open>0\<close> is not among them
  and the last is \<open>1\<close>. For a cubic and for a quadratic curve the function returns \<open>n\<close>
  points, the \<open>i\<close>-th being the curve evaluated at the \<open>i\<close>-th parameter value.
\<close>

theorem interpolate_curved_path_samples:
  assumes "1 \<le> n"
  shows "\<exists>ts ps qs.
     samples n = Inr ts \<and> ts = map (\<lambda>k. real k / real_of_int n) [1..<Suc (nat n)]
     \<and> length ts = nat n \<and> sorted_wrt (<) ts \<and> 0 \<notin> set ts \<and> last ts = 1
     \<and> interpolate_curved_path (''C'', [b0, b1, b2, b3]) n = Inr ps \<and> length ps = nat n
     \<and> map Inr ps = map (cubic_bezier (''C'', [b0, b1, b2, b3])) ts
     \<and> interpolate_curved_path (''Q'', [c0, c1, c2]) n = Inr qs \<and> length qs = nat n
     \<and> map Inr qs = map (quadratic_bezier (''Q'', [c0, c1, c2])) ts"
proof -
  define ts where "ts = map (\<lambda>k. real k / real_of_int n) [1..<Suc (nat n)]"
  define cub where "cub = (\<lambda>t. projr (cubic_bezier (''C'', [b0, b1, b2, b3]) t))"
  define qua where "qua = (\<lambda>t. projr (quadratic_bezier (''Q'', [c0, c1, c2]) t))"
  have s: "samples n = Inr ts"
    unfolding ts_def by (rule samples_pos[OF assms])
  have len: "length ts = nat n" by (simp add: ts_def)
  have srt: "sorted_wrt (<) ts"
    unfolding ts_def by (rule fractions_strictly_increasing[OF assms])
  have nz: "0 \<notin> set ts" using assms by (auto simp: ts_def)
  have lst: "last ts = 1"
  proof -
    obtain m where m: "nat n = Suc m" using assms by (cases "nat n") auto
    then have "real_of_int n = real (Suc m)" using assms by linarith
    with m show ?thesis by (simp add: ts_def)
  qed
  have c: "cubic_bezier (''C'', [b0, b1, b2, b3]) t = Inr (cub t)" for t
    by (simp add: cub_def cubic_bezier_def)
  have q: "quadratic_bezier (''Q'', [c0, c1, c2]) t = Inr (qua t)" for t
    by (simp add: qua_def quadratic_bezier_def)
  have ic: "interpolate_curved_path (''C'', [b0, b1, b2, b3]) n = Inr (map cub ts)"
    using sample_loop_Inr[of ts "cubic_bezier (''C'', [b0, b1, b2, b3])" cub] c
    by (simp add: interpolate_curved_path_def s)
  have iq: "interpolate_curved_path (''Q'', [c0, c1, c2]) n = Inr (map qua ts)"
    using sample_loop_Inr[of ts "quadratic_bezier (''Q'', [c0, c1, c2])" qua] q
    by (simp add: interpolate_curved_path_def s)
  have mc: "map Inr (map cub ts) = map (cubic_bezier (''C'', [b0, b1, b2, b3])) ts"
    by (simp add: c)
  have mq: "map Inr (map qua ts) = map (quadratic_bezier (''Q'', [c0, c1, c2])) ts"
    by (simp add: q)
  show ?thesis
    using s len srt nz lst ic iq mc mq unfolding ts_def[symmetric] 
    by (intro exI[of _ ts] exI[of _ "map cub ts"] exI[of _ "map qua ts"]) simp
qed

theorem interpolate_curved_path_samples_witness:
  "(1::int) \<le> 1 \<and> interpolate_curved_path (''C'', [0, Complex 0 10, Complex 10 10, Complex 10 0]) 1 = Inr [Complex 10 0]"
proof -
  obtain ts ps where "ts = map (\<lambda>k. real k / real_of_int 1) [1..<Suc (nat 1)]"
    and ps: "interpolate_curved_path (''C'', [0, Complex 0 10, Complex 10 10, Complex 10 0]) 1 = Inr ps"
    and m: "map Inr ps = map (cubic_bezier (''C'', [0, Complex 0 10, Complex 10 10, Complex 10 0])) ts"
    using interpolate_curved_path_samples[of 1 0 "Complex 0 10" "Complex 10 10" "Complex 10 0" 0 0 0]
    by auto
  then have "map Inr ps = [Inr (Complex 10 0) :: error + complex]"
    by (simp add: cubic_bezier_def complex_eq_iff)
  then have "ps = [Complex 10 0]" by auto
  with ps show ?thesis by simp
qed

section \<open>Properties of the path command interpreter\<close>

lemma samples_spec: "1 \<le> n \<Longrightarrow> samples n = Inr (spec_samples n)"
  unfolding spec_samples_def by (rule samples_pos)

lemma length_spec_samples: "length (spec_samples n) = nat n"
  by (simp add: spec_samples_def)

lemma interpolate_cubic_spec:
  assumes "1 \<le> n"
  shows "interpolate_curved_path (''C'', [b0, b1, b2, b3]) n
           = Inr (map (spec_cubic b0 b1 b2 b3) (spec_samples n))"
proof -
  have "cubic_bezier (''C'', [b0, b1, b2, b3]) t = Inr (spec_cubic b0 b1 b2 b3 t)" for t
    by (simp add: cubic_bezier_def spec_cubic_def)
  then show ?thesis
    using sample_loop_Inr[of _ "cubic_bezier (''C'', [b0, b1, b2, b3])" "spec_cubic b0 b1 b2 b3"]
    by (simp add: interpolate_curved_path_def samples_spec[OF assms])
qed

lemma interpolate_quadratic_spec:
  assumes "1 \<le> n"
  shows "interpolate_curved_path (''Q'', [b0, b1, b2]) n
           = Inr (map (spec_quadratic b0 b1 b2) (spec_samples n))"
proof -
  have "quadratic_bezier (''Q'', [b0, b1, b2]) t = Inr (spec_quadratic b0 b1 b2 t)" for t
    by (simp add: quadratic_bezier_def spec_quadratic_def)
  then show ?thesis
    using sample_loop_Inr[of _ "quadratic_bezier (''Q'', [b0, b1, b2])" "spec_quadratic b0 b1 b2"]
    by (simp add: interpolate_curved_path_def samples_spec[OF assms])
qed

lemma seg_step_refines_spec:
  assumes "1 \<le> n" and "operands_read (fst sg) \<le> length (snd sg)"
  shows "\<exists>st'. seg_step n sg st = Inr st'
           \<and> points2 st' = points2 st @ fst (spec_command n sg (PP st, CC st))
           \<and> (PP st', CC st') = snd (spec_command n sg (PP st, CC st))"
proof -
  obtain c a where sg: "sg = (c, a)" by (cases sg)
  note ic = interpolate_cubic_spec[OF assms(1)]
  note iq = interpolate_quadratic_spec[OF assms(1)]
  consider "c = ''M''" | "c = ''L''" | "c = ''H''" | "c = ''V''" | "c = ''C''" | "c = ''S''"
    | "c = ''Q''" | "c = ''T''" | "c = ''A''" | "c = ''Z''"
    | "c \<notin> set [''M'', ''L'', ''H'', ''V'', ''C'', ''S'', ''Q'', ''T'', ''A'', ''Z'']"
    by auto
  then show ?thesis
  proof cases
    case 1 with assms sg show ?thesis
      by (simp add: seg_step_def spec_command_def Let_def operands_read_def)
  next
    case 2 with assms sg show ?thesis
      by (simp add: seg_step_def spec_command_def Let_def operands_read_def emit_line_def)
  next
    case 3 with assms sg show ?thesis
      by (auto simp add: seg_step_def spec_command_def Let_def operands_read_def emit_line_def)
  next
    case 4 with assms sg show ?thesis
      by (auto simp add: seg_step_def spec_command_def Let_def operands_read_def emit_line_def)
  next
    case 5 with assms sg show ?thesis
      by (simp add: seg_step_def spec_command_def Let_def operands_read_def emit_curve_def ic)
  next
    case 6 with assms sg show ?thesis
      by (simp add: seg_step_def spec_command_def Let_def operands_read_def emit_curve_def ic)
  next
    case 7 with assms sg show ?thesis
      by (simp add: seg_step_def spec_command_def Let_def operands_read_def emit_curve_def iq)
  next
    case 8 with assms sg show ?thesis
      by (simp add: seg_step_def spec_command_def Let_def operands_read_def emit_curve_def iq)
  next
    case 9 with assms sg show ?thesis
      by (simp add: seg_step_def spec_command_def Let_def operands_read_def emit_line_def)
  next
    case 10 with assms sg show ?thesis
      by (simp add: seg_step_def spec_command_def Let_def operands_read_def)
  next
    case 11 with assms sg show ?thesis
      by (simp add: seg_step_def spec_command_def Let_def operands_read_def)
  qed
qed

lemma segs_loop_refines_spec:
  assumes "1 \<le> n" and "list_all (\<lambda>sg. operands_read (fst sg) \<le> length (snd sg)) segs"
  shows "\<exists>st. segs_loop n segs st0 = Inr st
           \<and> points2 st = points2 st0 @ concat (spec_groups n segs (PP st0, CC st0))"
  using assms(2)
proof (induction segs arbitrary: st0)
  case Nil
  show ?case by simp
next
  case (Cons sg segs)
  from Cons.prems have wf: "operands_read (fst sg) \<le> length (snd sg)"
    and wfs: "list_all (\<lambda>sg. operands_read (fst sg) \<le> length (snd sg)) segs" by simp_all
  obtain st1 where s1: "seg_step n sg st0 = Inr st1"
    and p1: "points2 st1 = points2 st0 @ fst (spec_command n sg (PP st0, CC st0))"
    and c1: "(PP st1, CC st1) = snd (spec_command n sg (PP st0, CC st0))"
    using seg_step_refines_spec[OF assms(1) wf] by blast
  obtain st where s2: "segs_loop n segs st1 = Inr st"
    and p2: "points2 st = points2 st1 @ concat (spec_groups n segs (PP st1, CC st1))"
    using Cons.IH[OF wfs] by blast
  have "segs_loop n (sg # segs) st0 = Inr st" using s1 s2 by simp
  moreover have "points2 st = points2 st0 @ concat (spec_groups n (sg # segs) (PP st0, CC st0))"
    using p1 p2 c1 by simp
  ultimately show ?case by blast
qed

lemma length_spec_command: "length (fst (spec_command n sg cursor)) = spec_vertices n sg"
  by (simp add: spec_command_def spec_vertices_def Let_def length_spec_samples)

lemma lengths_spec_groups: "map length (spec_groups n segs cursor) = map (spec_vertices n) segs"
  by (induction segs arbitrary: cursor) (simp_all add: length_spec_command)

lemma sum_list_spec_vertices:
  "sum_list (map (spec_vertices n) segs)
     = length (filter (\<lambda>sg. fst sg \<in> set [''M'', ''L'', ''H'', ''V'', ''A'']) segs)
       + nat n * length (filter (\<lambda>sg. fst sg \<in> set [''C'', ''S'', ''Q'', ''T'']) segs)"
  by (induction segs) (auto simp: spec_vertices_def)

lemma spec_samples_positive: "1 \<le> n \<Longrightarrow> t \<in> set (spec_samples n) \<Longrightarrow> 0 < t \<and> t \<le> 1"
  by (auto simp: spec_samples_def)

text \<open>
  Claim C2. For every sampling count \<open>n \<ge> 1\<close> and every sequence of commands that carry the
  operands of their kind, the interpreter returns, and the vertices it emits are exactly
  those of the specification: the concatenation, in command order, of one group per command.
  The group of \<^verbatim>\<open>M\<close>, \<^verbatim>\<open>L\<close>, \<^verbatim>\<open>H\<close>, \<^verbatim>\<open>V\<close> and \<^verbatim>\<open>A\<close> is the one new current point; the group of \<^verbatim>\<open>C\<close>,
  \<^verbatim>\<open>S\<close>, \<^verbatim>\<open>Q\<close> and \<^verbatim>\<open>T\<close> is the curve from the current point evaluated at the \<open>n\<close> parameter values
  \<open>1/n, ..., n/n\<close>, all greater than \<open>0\<close>, so that the start of the curve is not emitted again;
  the group of \<^verbatim>\<open>Z\<close> and of any other letter is empty. So the number of vertices is the number
  of commands of the first five kinds plus \<open>n\<close> times the number of commands of the four
  curve kinds.
\<close>

theorem segs_loop_emits_spec_vertices:
  assumes "1 \<le> n" and "list_all (\<lambda>sg. operands_read (fst sg) \<le> length (snd sg)) segs"
  shows "\<exists>st. segs_loop n segs (path_init cl) = Inr st
           \<and> points2 st = concat (spec_groups n segs (0, 0))
           \<and> length (spec_groups n segs (0, 0)) = length segs
           \<and> map length (spec_groups n segs (0, 0)) = map (spec_vertices n) segs
           \<and> (\<forall>t \<in> set (spec_samples n). 0 < t \<and> t \<le> 1)
           \<and> length (points2 st)
               = length (filter (\<lambda>sg. fst sg \<in> set [''M'', ''L'', ''H'', ''V'', ''A'']) segs)
                 + nat n * length (filter (\<lambda>sg. fst sg \<in> set [''C'', ''S'', ''Q'', ''T'']) segs)"
proof -
  obtain st where s: "segs_loop n segs (path_init cl) = Inr st"
    and p: "points2 st = points2 (path_init cl) @ concat (spec_groups n segs (PP (path_init cl), CC (path_init cl)))"
    using segs_loop_refines_spec[OF assms] by blast
  have p': "points2 st = concat (spec_groups n segs (0, 0))" using p by (simp add: path_init_def)
  have l: "map length (spec_groups n segs (0, 0)) = map (spec_vertices n) segs"
    by (rule lengths_spec_groups)
  from arg_cong[OF l, of length] have g: "length (spec_groups n segs (0, 0)) = length segs" by simp
  have "length (points2 st) = sum_list (map length (spec_groups n segs (0, 0)))"
    by (simp add: p' length_concat)
  then have c: "length (points2 st)
               = length (filter (\<lambda>sg. fst sg \<in> set [''M'', ''L'', ''H'', ''V'', ''A'']) segs)
                 + nat n * length (filter (\<lambda>sg. fst sg \<in> set [''C'', ''S'', ''Q'', ''T'']) segs)"
    by (simp only: l sum_list_spec_vertices)
  have t: "\<forall>t \<in> set (spec_samples n). 0 < t \<and> t \<le> 1"
    using spec_samples_positive[OF assms(1)] by blast
  from s p' g l t c show ?thesis by blast
qed

theorem segs_loop_emits_spec_vertices_witness:
  "(1::int) \<le> 2
   \<and> list_all (\<lambda>sg. operands_read (fst sg) \<le> length (snd sg))
        [(''M'', [0, 0]), (''C'', [0, 10, 10, 10, 10, 0]), (''Z'', [])]
   \<and> (\<exists>st. segs_loop 2 [(''M'', [0, 0]), (''C'', [0, 10, 10, 10, 10, 0]), (''Z'', [])] (path_init None) = Inr st
          \<and> points2 st = [0, Complex 5 (15 / 2), Complex 10 0] \<and> length (points2 st) = 3)
   \<and> spec_samples 2 = [1 / 2, 1]"
proof -
  let ?segs = "[(''M'', [0, 0]), (''C'', [0, 10, 10, 10, 10, 0]), (''Z'', [])] :: seg list"
  have h1: "(1::int) \<le> 2" by simp
  have h2: "list_all (\<lambda>sg. operands_read (fst sg) \<le> length (snd sg)) ?segs"
    by (simp add: operands_read_def)
  have sm: "spec_samples 2 = [1 / 2, 1]"
    by (simp add: spec_samples_def upt_conv_Cons numeral_3_eq_3)
  have g: "concat (spec_groups 2 ?segs (0, 0)) = [0, Complex 5 (15 / 2), Complex 10 0]"
    by (simp add: spec_command_def spec_cubic_def sm Let_def complex_eq_iff power2_eq_square power3_eq_cube)
  from segs_loop_emits_spec_vertices[OF h1 h2, of None] obtain st where
    "segs_loop 2 ?segs (path_init None) = Inr st" "points2 st = concat (spec_groups 2 ?segs (0, 0))"
    by blast
  with g h1 h2 sm show ?thesis by simp
qed

lemma scenario_cubic_n1:
  "segs_loop 1 [(''M'', [0, 0]), (''C'', [0, 10, 10, 10, 10, 0])] (path_init None)
     = Inr \<lparr>PP = Complex 10 0, CC = Complex 10 10,
            newp = [LinM 0, LinL (Complex 10 0)], points2 = [0, Complex 10 0], closed = None\<rparr>"
  by (simp add: seg_step_def path_init_def emit_curve_def interpolate_curved_path_def samples_def
        linspace_def cubic_bezier_def Let_def complex_eq_iff)

section \<open>Properties of the style mapping\<close>

lemma lazy_dot_plus_Some:
  "lazy_dot_plus acc ds = Some v \<Longrightarrow> \<exists>mid post. ds = mid @ CHR '';'' # post \<and> v = acc @ mid
      \<and> CHR '';'' \<notin> set mid \<and> CHR 0x0A \<notin> set mid"
proof (induction acc ds rule: lazy_dot_plus.induct)
  case (1 acc)
  then show ?case by simp
next
  case (2 acc d ds)
  show ?case
  proof (cases "d = CHR '';''")
    case True
    with 2 show ?thesis by (intro exI[of _ "[]"] exI[of _ ds]) simp
  next
    case False
    with 2 have nl: "d \<noteq> CHR 0x0A" and r: "lazy_dot_plus (acc @ [d]) ds = Some v"
      by (auto split: if_splits)
    from "2.IH"[OF False nl r] obtain mid post where
      "ds = mid @ CHR '';'' # post" "v = (acc @ [d]) @ mid" "CHR '';'' \<notin> set mid" "CHR 0x0A \<notin> set mid"
      by blast
    with False nl show ?thesis by (intro exI[of _ "d # mid"] exI[of _ post]) simp
  qed
qed

lemma match_fill_here_Some:
  assumes "match_fill_here s = Some v"
  shows "\<exists>post. s = ''fill:'' @ v @ CHR '';'' # post \<and> v \<noteq> [] \<and> CHR 0x0A \<notin> set v
           \<and> CHR '';'' \<notin> set (tl v)"
proof -
  from assms have t: "take 5 s = ''fill:''" by (simp add: match_fill_here_def split: if_splits)
  from assms t obtain c cs where d: "drop 5 s = c # cs" and nl: "c \<noteq> CHR 0x0A"
    and l: "lazy_dot_plus [c] cs = Some v"
    by (auto simp: match_fill_here_def split: list.splits if_splits)
  from lazy_dot_plus_Some[OF l] obtain mid post where
    m: "cs = mid @ CHR '';'' # post" "v = [c] @ mid" "CHR '';'' \<notin> set mid" "CHR 0x0A \<notin> set mid"
    by blast
  have "s = take 5 s @ drop 5 s" by simp
  with t d m have "s = ''fill:'' @ v @ CHR '';'' # post" by simp
  with m nl show ?thesis by auto
qed

lemma re_search_fill_Some:
  "re_search_fill s = Some v \<Longrightarrow>
     \<exists>pre post. s = pre @ ''fill:'' @ v @ CHR '';'' # post \<and> v \<noteq> [] \<and> CHR 0x0A \<notin> set v
        \<and> CHR '';'' \<notin> set (tl v)"
proof (induction s)
  case Nil
  then show ?case by simp
next
  case (Cons c cs)
  show ?case
  proof (cases "match_fill_here (c # cs)")
    case (Some w)
    with Cons.prems have "w = v" by simp
    with Some match_fill_here_Some[of "c # cs" v] show ?thesis
      by (metis append_Nil)
  next
    case None
    with Cons.prems have "re_search_fill cs = Some v" by simp
    from Cons.IH[OF this] obtain pre post where
      "cs = pre @ ''fill:'' @ v @ CHR '';'' # post" "v \<noteq> []" "CHR 0x0A \<notin> set v" "CHR '';'' \<notin> set (tl v)"
      by blast
    then show ?thesis by (intro exI[of _ "c # pre"] exI[of _ post]) simp
  qed
qed

lemma re_search_fill_sublist:
  assumes "re_search_fill s = Some v"
  shows "sublist ''fill:'' s"
proof -
  from re_search_fill_Some[OF assms] obtain pre post where
    "s = pre @ ''fill:'' @ (v @ CHR '';'' # post)" by auto
  then show ?thesis unfolding sublist_def by blast
qed

text \<open>
  Claim C6. When the search extracts the fill value \<open>v\<close> from the style, \<^verbatim>\<open>gen_style\<close> returns
  the style \<^verbatim>\<open>fill:{color};stroke:none;opacity:{alpha}\<close> with outline \<^verbatim>\<open>false\<close> if \<open>v\<close> is not
  \<^verbatim>\<open>none\<close>, and the style \<^verbatim>\<open>fill:none;stroke:{color};stroke-width:1;opacity:{alpha}\<close> with outline
  \<^verbatim>\<open>true\<close> if it is, for every colour and alpha.
\<close>

theorem gen_style_by_fill:
  assumes "re_search_fill old_sty = Some v"
  shows "gen_style str_float old_sty layer_color layer_alpha =
           (if v \<noteq> ''none''
            then Inr (''fill:'' @ layer_color @ '';stroke:none;opacity:'' @ str_float layer_alpha, ''false'')
            else Inr (''fill:none;stroke:'' @ layer_color @ '';stroke-width:1;opacity:''
                        @ str_float layer_alpha, ''true''))"
  using assms by (simp add: gen_style_def)

theorem gen_style_by_fill_witness:
  "re_search_fill ''fill:#000000;'' = Some ''#000000''
   \<and> gen_style (\<lambda>a. ''0.5'') ''fill:#000000;'' ''#1F77B4'' (1 / 2)
       = Inr (''fill:#1F77B4;stroke:none;opacity:0.5'', ''false'')
   \<and> re_search_fill ''stroke:#000000;fill:none;stroke-width:2'' = Some ''none''
   \<and> gen_style (\<lambda>a. ''0.5'') ''stroke:#000000;fill:none;stroke-width:2'' ''#1F77B4'' (1 / 2)
       = Inr (''fill:none;stroke:#1F77B4;stroke-width:1;opacity:0.5'', ''true'')"
proof -
  have a: "re_search_fill ''fill:#000000;'' = Some ''#000000''"
    by (simp add: match_fill_here_def)
  have b: "re_search_fill ''stroke:#000000;fill:none;stroke-width:2'' = Some ''none''"
    by (simp add: match_fill_here_def)
  show ?thesis
    using a b gen_style_by_fill[OF a, of "\<lambda>a. ''0.5''" "''#1F77B4''" "1 / 2"]
      gen_style_by_fill[OF b, of "\<lambda>a. ''0.5''" "''#1F77B4''" "1 / 2"]
    by simp
qed

text \<open>
  Claim C7. On a style in which the text \<^verbatim>\<open>fill:\<close> does not occur, and more generally on every
  style in which the pattern has no match, \<^verbatim>\<open>gen_style\<close> raises (the exception is Python's
  \<^verbatim>\<open>AttributeError\<close>); nothing catches it, so the conversion of a closed path with such a style
  ends with that exception. On a style in which the pattern has a match, \<^verbatim>\<open>gen_style\<close>
  returns a result.
\<close>

theorem gen_style_fails_iff_no_match:
  "(\<not> sublist ''fill:'' old_sty \<longrightarrow> gen_style str_float old_sty layer_color layer_alpha = Inl AttributeError)
   \<and> (re_search_fill old_sty = None \<longrightarrow>
        gen_style str_float old_sty layer_color layer_alpha = Inl AttributeError
        \<and> (\<forall>st. segs_loop (num_int_points cfg) segs (path_init cl) = Inr st \<and> closed st = Some True \<longrightarrow>
              path_item str_float cfg layer_color layer_alpha cl \<lparr>path_style = Some old_sty, path_segs = segs\<rparr>
                = Inl AttributeError))
   \<and> (re_search_fill old_sty \<noteq> None \<longrightarrow>
        (\<exists>ns outl. gen_style str_float old_sty layer_color layer_alpha = Inr (ns, outl)))"
proof (intro conjI impI allI)
  assume "\<not> sublist ''fill:'' old_sty"
  then have "re_search_fill old_sty = None"
    using re_search_fill_sublist[of old_sty] by (cases "re_search_fill old_sty") auto
  then show "gen_style str_float old_sty layer_color layer_alpha = Inl AttributeError"
    by (simp add: gen_style_def)
next
  assume "re_search_fill old_sty = None"
  then show "gen_style str_float old_sty layer_color layer_alpha = Inl AttributeError"
    by (simp add: gen_style_def)
next
  fix st
  assume n: "re_search_fill old_sty = None"
    and s: "segs_loop (num_int_points cfg) segs (path_init cl) = Inr st \<and> closed st = Some True"
  from n have "gen_style str_float old_sty layer_color layer_alpha = Inl AttributeError"
    by (simp add: gen_style_def)
  with s show "path_item str_float cfg layer_color layer_alpha cl \<lparr>path_style = Some old_sty, path_segs = segs\<rparr>
                = Inl AttributeError"
    by (simp add: path_item_def Let_def)
next
  assume "re_search_fill old_sty \<noteq> None"
  then show "\<exists>ns outl. gen_style str_float old_sty layer_color layer_alpha = Inr (ns, outl)"
    by (auto simp: gen_style_def)
qed

theorem gen_style_fails_iff_no_match_witness:
  "\<not> sublist ''fill:'' ''stroke:#000000;''
   \<and> gen_style (\<lambda>a. ''0.5'') ''stroke:#000000;'' ''#1F77B4'' (1 / 2) = Inl AttributeError
   \<and> re_search_fill ''fill:red'' = None
   \<and> segs_loop 10 [(''M'', [0, 0]), (''L'', [1, 0]), (''Z'', [])] (path_init None)
        = Inr \<lparr>PP = Complex 1 0, CC = 0, newp = [LinM 0, LinL (Complex 1 0), LinZ],
               points2 = [0, Complex 1 0], closed = Some True\<rparr>
   \<and> path_item (\<lambda>a. ''0.5'') \<lparr>num_int_points = 10, apply_on_svg = False, calc_rot = False\<rparr>
        ''#1F77B4'' (1 / 2) None
        \<lparr>path_style = Some ''fill:red'', path_segs = [(''M'', [0, 0]), (''L'', [1, 0]), (''Z'', [])]\<rparr>
        = Inl AttributeError
   \<and> re_search_fill ''fill:#000000;'' \<noteq> None
   \<and> (\<exists>ns outl. gen_style (\<lambda>a. ''0.5'') ''fill:#000000;'' ''#1F77B4'' (1 / 2) = Inr (ns, outl))"
proof -
  let ?cfg = "\<lparr>num_int_points = 10, apply_on_svg = False, calc_rot = False\<rparr>"
  let ?segs = "[(''M'', [0, 0]), (''L'', [1, 0]), (''Z'', [])] :: seg list"
  let ?st = "\<lparr>PP = Complex 1 0, CC = 0, newp = [LinM 0, LinL (Complex 1 0), LinZ],
               points2 = [0, Complex 1 0], closed = Some True\<rparr>"
  have a: "\<not> sublist ''fill:'' ''stroke:#000000;''"
    by (simp add: sublist_Cons_right)
  have b: "re_search_fill ''fill:red'' = None"
    by (simp add: match_fill_here_def)
  have c: "segs_loop (num_int_points ?cfg) ?segs (path_init None) = Inr ?st"
    by (simp add: seg_step_def path_init_def emit_line_def Let_def complex_eq_iff)
  have d: "re_search_fill ''fill:#000000;'' \<noteq> None"
    by (simp add: match_fill_here_def)
  note t1 = gen_style_fails_iff_no_match[of "''stroke:#000000;''" "\<lambda>a. ''0.5''" "''#1F77B4''" "1 / 2" ?cfg ?segs None]
  note t2 = gen_style_fails_iff_no_match[of "''fill:red''" "\<lambda>a. ''0.5''" "''#1F77B4''" "1 / 2" ?cfg ?segs None]
  note t3 = gen_style_fails_iff_no_match[of "''fill:#000000;''" "\<lambda>a. ''0.5''" "''#1F77B4''" "1 / 2" ?cfg ?segs None]
  have e: "gen_style (\<lambda>a. ''0.5'') ''stroke:#000000;'' ''#1F77B4'' (1 / 2) = Inl AttributeError"
    using t1 a by blast
  have f: "path_item (\<lambda>a. ''0.5'') ?cfg ''#1F77B4'' (1 / 2) None \<lparr>path_style = Some ''fill:red'', path_segs = ?segs\<rparr>
        = Inl AttributeError"
    using t2 b c by simp
  have g: "\<exists>ns outl. gen_style (\<lambda>a. ''0.5'') ''fill:#000000;'' ''#1F77B4'' (1 / 2) = Inr (ns, outl)"
    using t3 d by blast
  from a b c d e f g show ?thesis by simp
qed

section \<open>Properties of the colour cycle\<close>

lemma layer_loop_Inr:
  assumes "color_cycle \<noteq> []"
  shows "\<exists>r. layer_loop color_cycle i lays = Inr r \<and> length r = length lays
           \<and> (\<forall>k<length lays. r ! k = (lays ! k, color_cycle ! ((i + k) mod length color_cycle)))"
proof (induction lays arbitrary: i)
  case Nil
  show ?case by simp
next
  case (Cons lay lays)
  obtain r where r: "layer_loop color_cycle (Suc i) lays = Inr r" "length r = length lays"
    "\<forall>k<length lays. r ! k = (lays ! k, color_cycle ! ((Suc i + k) mod length color_cycle))"
    using Cons.IH[of "Suc i"] by blast
  let ?r = "(lay, color_cycle ! (i mod length color_cycle)) # r"
  have "layer_loop color_cycle i (lay # lays) = Inr ?r" using assms r(1) by simp
  moreover have "length ?r = length (lay # lays)" using r(2) by simp
  moreover have "\<forall>k<length (lay # lays). ?r ! k = ((lay # lays) ! k, color_cycle ! ((i + k) mod length color_cycle))"
  proof (intro allI impI)
    fix k assume "k < length (lay # lays)"
    then show "?r ! k = ((lay # lays) ! k, color_cycle ! ((i + k) mod length color_cycle))"
      using r(3) by (cases k) auto
  qed
  ultimately show ?case by blast
qed

text \<open>
  Claim C9. For a non-empty colour cycle of length \<open>L\<close> the layer loop returns, and the layer
  at index \<open>i\<close> (counted from 0, in the order of the layer list) receives the colour
  \<open>color_cycle[i mod L]\<close>; so the layers at the indices \<open>i\<close> and \<open>i + L\<close> receive the same colour.
\<close>

theorem layer_colour_is_cycle_at_index_mod_length:
  assumes "color_cycle \<noteq> []"
  shows "\<exists>r. layer_loop color_cycle 0 lays = Inr r \<and> length r = length lays
           \<and> (\<forall>i<length lays. r ! i = (lays ! i, color_cycle ! (i mod length color_cycle)))
           \<and> (\<forall>i. i + length color_cycle < length lays \<longrightarrow>
                  snd (r ! (i + length color_cycle)) = snd (r ! i))"
proof -
  obtain r where r: "layer_loop color_cycle 0 lays = Inr r" "length r = length lays"
    "\<forall>k<length lays. r ! k = (lays ! k, color_cycle ! ((0 + k) mod length color_cycle))"
    using layer_loop_Inr[OF assms, of 0 lays] by blast
  have "snd (r ! (i + length color_cycle)) = snd (r ! i)" if "i + length color_cycle < length lays" for i
  proof -
    from that have "i < length lays" by simp
    with r(3) that show ?thesis by simp
  qed
  with r show ?thesis by auto
qed

theorem layer_colour_is_cycle_at_index_mod_length_witness:
  "[''#1F77B47F'', ''#FF7F0E7F''] \<noteq> []
   \<and> layer_loop [''#1F77B47F'', ''#FF7F0E7F''] 0 [''layer a'', ''layer b'', ''layer c'']
       = Inr [(''layer a'', ''#1F77B47F''), (''layer b'', ''#FF7F0E7F''), (''layer c'', ''#1F77B47F'')]"
proof -
  let ?cc = "[''#1F77B47F'', ''#FF7F0E7F'']"
  let ?lays = "[''layer a'', ''layer b'', ''layer c'']"
  have ne: "?cc \<noteq> []" by simp
  obtain r where r: "layer_loop ?cc 0 ?lays = Inr r"
    and l: "length r = length ?lays"
    and n: "\<forall>i<length ?lays. r ! i = (?lays ! i, ?cc ! (i mod length ?cc))"
    using layer_colour_is_cycle_at_index_mod_length[OF ne, of ?lays] by blast
  have "r ! 0 = (''layer a'', ''#1F77B47F'')" using n[rule_format, of 0] by simp
  moreover have "r ! 1 = (''layer b'', ''#FF7F0E7F'')" using n[rule_format, of 1] by simp
  moreover have "r ! 2 = (''layer c'', ''#1F77B47F'')" using n[rule_format, of 2] by (simp add: numeral_2_eq_2[symmetric])
  ultimately have "r = [(''layer a'', ''#1F77B47F''), (''layer b'', ''#FF7F0E7F''), (''layer c'', ''#1F77B47F'')]"
    using l by (intro nth_equalityI) (auto simp: less_Suc_eq numeral_2_eq_2)
  with r ne show ?thesis by (simp only: simp_thms)
qed

section \<open>Properties of the rounding to a double\<close>

lemma round_half_even_near: "\<bar>real_of_int (round_half_even x) - x\<bar> \<le> 1 / 2"
proof -
  have "real_of_int \<lfloor>x\<rfloor> \<le> x" "x < real_of_int \<lfloor>x\<rfloor> + 1" by linarith+
  then show ?thesis by (auto simp: round_half_even_def Let_def)
qed

lemma round_half_even_nonneg: "0 \<le> x \<Longrightarrow> 0 \<le> round_half_even x"
  by (auto simp: round_half_even_def Let_def)

lemma round_half_even_of_int [simp]: "round_half_even (real_of_int k) = k"
  by (simp add: round_half_even_def)

lemma round_half_even_le_int:
  assumes "y \<le> real_of_int N"
  shows "round_half_even y \<le> N"
proof (cases "y = real_of_int N")
  case True
  then show ?thesis by simp
next
  case False
  with assms have "y < real_of_int N" by simp
  then have "\<lfloor>y\<rfloor> < N" by (simp add: floor_less_iff)
  then show ?thesis by (auto simp: round_half_even_def Let_def)
qed

lemma round_half_even_le_double:
  assumes "0 \<le> y"
  shows "real_of_int (round_half_even y) \<le> 2 * y"
proof (cases "y < 1 / 2")
  case True
  with assms have "\<lfloor>y\<rfloor> = 0" by (simp add: floor_eq_iff)
  with True assms show ?thesis by (simp add: round_half_even_def)
next
  case False
  with round_half_even_near[of y] show ?thesis by linarith
qed

lemma round_double_nonneg:
  assumes "0 \<le> x"
  shows "0 \<le> round_double x"
proof (cases "x = 0")
  case True
  then show ?thesis by (simp add: round_double_def)
next
  case False
  define u where "u = 2 powr real_of_int (max \<lfloor>log 2 \<bar>x\<bar>\<rfloor> (- 1022) - 52)"
  have u: "0 < u" by (simp add: u_def)
  have "0 \<le> x / u" using assms u by simp
  then have "0 \<le> round_half_even (x / u)" by (rule round_half_even_nonneg)
  with u have "0 \<le> real_of_int (round_half_even (x / u)) * u" by simp
  with False show ?thesis unfolding u_def round_double_def Let_def by simp
qed

lemma round_double_le_double:
  assumes "0 < x"
  shows "round_double x \<le> 2 * x"
proof -
  define u where "u = 2 powr real_of_int (max \<lfloor>log 2 \<bar>x\<bar>\<rfloor> (- 1022) - 52)"
  have u: "0 < u" by (simp add: u_def)
  have "0 \<le> x / u" using assms u by simp
  then have "real_of_int (round_half_even (x / u)) \<le> 2 * (x / u)" by (rule round_half_even_le_double)
  then have "real_of_int (round_half_even (x / u)) * u \<le> 2 * (x / u) * u"
    using u by (simp only: mult_le_cancel_right_pos)
  also have "\<dots> = 2 * x" using u by simp
  finally show ?thesis using assms unfolding u_def round_double_def Let_def by simp
qed

lemma round_double_le_100:
  assumes "0 < x" and "x \<le> 100"
  shows "round_double x \<le> 100"
proof -
  define e where "e = max \<lfloor>log 2 \<bar>x\<bar>\<rfloor> (- 1022)"
  define u where "u = 2 powr real_of_int (e - 52)"
  have "x < 2 powr 7" using assms by simp
  then have "log 2 x < 7" using assms by (simp add: log_less_iff)
  then have "\<lfloor>log 2 x\<rfloor> < 7" by (simp add: floor_less_iff)
  then have e: "e \<le> 6" using assms by (simp add: e_def)
  define m where "m = nat (52 - e)"
  have me: "real_of_int (e - 52) = - real m" using e by (simp add: m_def)
  have u2: "u = 1 / 2 ^ m" unfolding u_def me by (simp add: powr_minus powr_realpow divide_simps)
  have up: "0 < u" by (simp add: u_def)
  have "x / u \<le> 100 / u" using assms up by (simp add: divide_right_mono)
  also have "100 / u = real_of_int (100 * 2 ^ m)" by (simp add: u2)
  finally have "round_half_even (x / u) \<le> 100 * 2 ^ m" by (rule round_half_even_le_int)
  then have "real_of_int (round_half_even (x / u)) \<le> real_of_int (100 * 2 ^ m)" by linarith
  then have "real_of_int (round_half_even (x / u)) * u \<le> real_of_int (100 * 2 ^ m) * u"
    using up by (simp only: mult_le_cancel_right_pos)
  also have "real_of_int (100 * 2 ^ m) * u = 100" by (simp add: u2)
  finally show ?thesis using assms unfolding u_def e_def round_double_def Let_def by simp
qed

lemma round_double_in_binade:
  assumes "2 powr real_of_int e \<le> \<bar>x\<bar>" and "\<bar>x\<bar> < 2 powr real_of_int (e + 1)" and "- 1022 \<le> e"
  shows "round_double x
           = real_of_int (round_half_even (x / 2 powr real_of_int (e - 52))) * 2 powr real_of_int (e - 52)"
proof -
  have "0 < 2 powr real_of_int e" by simp
  with assms(1) have x: "0 < \<bar>x\<bar>" by linarith
  then have "\<lfloor>log 2 \<bar>x\<bar>\<rfloor> = e"
    using assms(1,2) by (subst floor_log_eq_powr_iff) simp_all
  with x assms(3) show ?thesis by (simp add: round_double_def Let_def max_def)
qed

section \<open>Properties of the alpha encoding\<close>

lemma hex_digit_props:
  assumes "d < 16"
  shows "hex_val (hex_digit d) = Some d \<and> \<not> py_isspace (hex_digit d)
    \<and> hex_digit d \<noteq> CHR ''-'' \<and> hex_digit d \<noteq> CHR ''+''"
proof -
  have "list_all (\<lambda>d. hex_val (hex_digit d) = Some d \<and> \<not> py_isspace (hex_digit d)
    \<and> hex_digit d \<noteq> CHR ''-'' \<and> hex_digit d \<noteq> CHR ''+'') [0..<16]"
    by code_simp
  with assms show ?thesis by (simp add: list_all_iff)
qed

lemma format_02x_byte:
  assumes "0 \<le> k" and "k < 256"
  shows "format_02x k = [hex_digit (nat k div 16), hex_digit (nat k mod 16)]"
proof (cases "nat k < 16")
  case True
  with assms show ?thesis by (simp add: format_02x_def hex_digit_def)
next
  case False
  moreover from assms have "nat k div 16 < 16" by simp
  ultimately show ?thesis using assms by (simp add: format_02x_def)
qed

lemma int_base16_two_digits:
  assumes "a < 16" and "b < 16"
  shows "int_base16 [hex_digit a, hex_digit b] = Inr (int (16 * a + b))"
  using hex_digit_props[OF assms(1)] hex_digit_props[OF assms(2)]
  by (simp add: int_base16_def strip_def Let_def)

lemma decode_encoded_byte:
  assumes "0 \<le> k" and "k < 256"
  shows "int_base16 (format_02x k) = Inr k"
proof -
  have "nat k div 16 < 16" "nat k mod 16 < 16" using assms by simp_all
  from int_base16_two_digits[OF this] assms show ?thesis
    by (simp add: format_02x_byte)
qed

lemma int_base16_FF: "int_base16 ''FF'' = Inr 255"
  by (simp add: int_base16_def strip_def Let_def py_isspace_def hex_val_def)

lemma drop_to_last_two: "drop (length (pre @ [h1, h2]) - 2) (pre @ [h1, h2]) = [h1, h2]"
  by simp

lemma get_layer_attribs_alpha:
  assumes "label lay = Some nm" and "int_base16 (drop (length color - 2) color) = Inr k"
  shows "\<exists>la. get_layer_attribs lay color = Inr la \<and> alpha la = real_of_int k / 255
            \<and> colorRGB la = take 7 color"
  using assms by (simp add: get_layer_attribs_def Let_def)

text \<open>
  Claim C8. For an alpha \<open>A\<close> in \<open>[0, 1]\<close> (a double), \<^verbatim>\<open>rgba_conv\<close> ends the colour of
  \<open>(R, G, B, A)\<close> with \<^verbatim>\<open>int(A * 100)\<close> printed as two hexadecimal digits, where \<^verbatim>\<open>A * 100\<close> is the
  product of doubles, and ends the colour of \<open>(R, G, B)\<close> with \<^verbatim>\<open>FF\<close>. \<^verbatim>\<open>get_layer_attribs\<close>
  reads the last two characters as a hexadecimal number and divides it by 255. So the alpha
  decoded from the encoding of \<open>A\<close> is \<open>int(A * 100) / 255\<close>, which is smaller than \<open>A\<close> for
  every \<open>A > 0\<close>; the colour without alpha decodes to alpha 1.
\<close>

theorem custom_alpha_encode_decode:
  assumes "0 \<le> A" and "A \<le> 1" and "is_double A" and "label lay = Some nm"
  shows "\<exists>s la s3 la3.
           rgba_conv [PyInt r, PyInt g, PyInt b, PyFloat A] = Inr s
         \<and> s = ''#'' @ format_02x r @ format_02x g @ format_02x b
                 @ format_02x (py_int (float_mul A 100))
         \<and> length (format_02x (py_int (float_mul A 100))) = 2
         \<and> get_layer_attribs lay s = Inr la
         \<and> alpha la = real_of_int (py_int (float_mul A 100)) / 255
         \<and> (0 < A \<longrightarrow> alpha la < A)
         \<and> rgba_conv [PyInt r, PyInt g, PyInt b] = Inr s3
         \<and> s3 = ''#'' @ format_02x r @ format_02x g @ format_02x b @ ''FF''
         \<and> get_layer_attribs lay s3 = Inr la3
         \<and> alpha la3 = 1"
proof -
  define p where "p = float_mul A 100"
  define k where "k = py_int p"
  define pre where "pre = ''#'' @ format_02x r @ format_02x g @ format_02x b"
  have p0: "0 \<le> p" unfolding p_def float_mul_def
    using assms(1) by (intro round_double_nonneg) simp
  have p100: "p \<le> 100"
  proof (cases "A = 0")
    case True
    then show ?thesis by (simp add: p_def float_mul_def round_double_def)
  next
    case False
    with assms(1,2) have "0 < A * 100" "A * 100 \<le> 100" by simp_all
    then show ?thesis unfolding p_def float_mul_def by (rule round_double_le_100)
  qed
  have k0: "0 \<le> k" using p0 by (simp add: k_def py_int_def)
  have "k \<le> 100" using p0 p100 by (simp add: k_def py_int_def floor_le_iff)
  then have k1: "k < 256" by simp
  have kp: "real_of_int k \<le> p" using p0 by (simp add: k_def py_int_def)
  have enc: "format_02x k = [hex_digit (nat k div 16), hex_digit (nat k mod 16)]"
    by (rule format_02x_byte[OF k0 k1])
  have "(100::real) < double_max" by (simp add: double_max_def)
  with p0 p100 have "\<not> double_max < \<bar>p\<bar>" by simp
  then have it: "int_times_100 (PyFloat A) = Inr k"
    by (simp add: int_times_100_def Let_def p_def[symmetric] k_def)
  have s: "rgba_conv [PyInt r, PyInt g, PyInt b, PyFloat A] = Inr (pre @ format_02x k)"
    by (simp add: rgba_conv_def py_format_02x_def it pre_def)
  have "drop (length (pre @ format_02x k) - 2) (pre @ format_02x k) = format_02x k"
    unfolding enc by (rule drop_to_last_two)
  then have "int_base16 (drop (length (pre @ format_02x k) - 2) (pre @ format_02x k)) = Inr k"
    by (simp only: decode_encoded_byte[OF k0 k1])
  from get_layer_attribs_alpha[OF assms(4) this] obtain la where
    la: "get_layer_attribs lay (pre @ format_02x k) = Inr la" "alpha la = real_of_int k / 255"
    by blast
  have lt: "alpha la < A" if "0 < A"
  proof -
    from that have "0 < A * 100" by simp
    then have "p \<le> 2 * (A * 100)" unfolding p_def float_mul_def by (rule round_double_le_double)
    with kp have "real_of_int k \<le> A * 200" by simp
    also have "\<dots> < A * 255" using that by simp
    finally show ?thesis by (simp add: la(2))
  qed
  have s3: "rgba_conv [PyInt r, PyInt g, PyInt b] = Inr (pre @ ''FF'')"
    by (simp add: rgba_conv_def py_format_02x_def pre_def)
  have "drop (length (pre @ ''FF'') - 2) (pre @ ''FF'') = ''FF''"
    by (rule drop_to_last_two)
  then have "int_base16 (drop (length (pre @ ''FF'') - 2) (pre @ ''FF'')) = Inr 255"
    by (simp only: int_base16_FF)
  from get_layer_attribs_alpha[OF assms(4) this] obtain la3 where
    la3: "get_layer_attribs lay (pre @ ''FF'') = Inr la3" "alpha la3 = real_of_int 255 / 255"
    by blast
  have "length (format_02x k) = 2" by (simp add: enc)
  with s la lt s3 la3 show ?thesis
    unfolding k_def p_def pre_def
    by (intro exI[of _ "''#'' @ format_02x r @ format_02x g @ format_02x b @ format_02x (py_int (float_mul A 100))"]
          exI[of _ la] exI[of _ "''#'' @ format_02x r @ format_02x g @ format_02x b @ ''FF''"] exI[of _ la3]) simp
qed

lemma double_near_029:
  "is_double (5224175567749775 / 2 ^ 54)
   \<and> float_mul (5224175567749775 / 2 ^ 54) 100 = 8162774324609023 / 2 ^ 48
   \<and> py_int (float_mul (5224175567749775 / 2 ^ 54) 100) = 28"
proof -
  let ?A = "5224175567749775 / 2 ^ 54 :: real"
  have "round_double ?A
          = real_of_int (round_half_even (?A / 2 powr real_of_int (- 2 - 52))) * 2 powr real_of_int (- 2 - 52)"
    by (rule round_double_in_binade) (simp_all add: powr_minus)
  also have "2 powr real_of_int (- 2 - 52) = 1 / 2 ^ 54" by (simp add: powr_minus)
  also have "round_half_even (?A / (1 / 2 ^ 54)) = 5224175567749775"
    by (simp add: round_half_even_def)
  finally have a: "round_double ?A = ?A" by simp
  have b: "\<bar>?A\<bar> \<le> double_max" by (simp add: double_max_def)
  have "round_double (?A * 100)
          = real_of_int (round_half_even (?A * 100 / 2 powr real_of_int (4 - 52))) * 2 powr real_of_int (4 - 52)"
    by (rule round_double_in_binade) (simp_all add: powr_minus)
  also have "2 powr real_of_int (4 - 52) = 1 / 2 ^ 48" by (simp add: powr_minus)
  also have "round_half_even (?A * 100 / (1 / 2 ^ 48)) = 8162774324609023"
    by (simp add: round_half_even_def Let_def)
  finally have c: "float_mul ?A 100 = 8162774324609023 / 2 ^ 48" by (simp add: float_mul_def)
  have d: "py_int (8162774324609023 / 2 ^ 48) = 28" by (simp add: py_int_def)
  have e: "py_int (float_mul ?A 100) = 28" by (simp only: c d)
  from a b c e show ?thesis by (simp only: is_double_def simp_thms)
qed

lemma double_near_035:
  "float_mul (3152519739159347 / 2 ^ 53) 100 = 35
   \<and> py_int (float_mul (3152519739159347 / 2 ^ 53) 100) = 35
   \<and> \<lfloor>3152519739159347 / 2 ^ 53 * 100 :: real\<rfloor> = 34"
proof -
  let ?A = "3152519739159347 / 2 ^ 53 :: real"
  have "round_double (?A * 100)
          = real_of_int (round_half_even (?A * 100 / 2 powr real_of_int (5 - 52))) * 2 powr real_of_int (5 - 52)"
    by (rule round_double_in_binade) (simp_all add: powr_minus)
  also have "2 powr real_of_int (5 - 52) = 1 / 2 ^ 47" by (simp add: powr_minus)
  also have "round_half_even (?A * 100 / (1 / 2 ^ 47)) = 4925812092436480"
    by (simp add: round_half_even_def Let_def)
  finally have c: "float_mul ?A 100 = 35" by (simp add: float_mul_def)
  have d: "py_int 35 = 35" by (simp add: py_int_def)
  have e: "py_int (float_mul ?A 100) = 35" by (simp only: c d)
  have f: "\<lfloor>?A * 100\<rfloor> = 34" by simp
  from c e f show ?thesis by (simp only: simp_thms)
qed

theorem custom_alpha_encode_decode_witness:
  "(0::real) \<le> 5224175567749775 / 2 ^ 54 \<and> (5224175567749775 / 2 ^ 54 :: real) \<le> 1
   \<and> is_double (5224175567749775 / 2 ^ 54)
   \<and> label \<lparr>label = Some ''Layer 1'', layer_style = None, insensitive = None\<rparr> = Some ''Layer 1''
   \<and> rgba_conv [PyInt 255, PyInt 0, PyInt 0, PyFloat (5224175567749775 / 2 ^ 54)] = Inr ''#ff00001c''
   \<and> (\<exists>la. get_layer_attribs \<lparr>label = Some ''Layer 1'', layer_style = None, insensitive = None\<rparr>
               ''#ff00001c'' = Inr la \<and> alpha la = 28 / 255 \<and> alpha la < 5224175567749775 / 2 ^ 54)
   \<and> rgba_conv [PyInt 255, PyInt 0, PyInt 0] = Inr ''#ff0000FF''
   \<and> (\<exists>la. get_layer_attribs \<lparr>label = Some ''Layer 1'', layer_style = None, insensitive = None\<rparr>
               ''#ff0000FF'' = Inr la \<and> alpha la = 1)"
proof -
  let ?A = "5224175567749775 / 2 ^ 54 :: real"
  let ?lay = "\<lparr>label = Some ''Layer 1'', layer_style = None, insensitive = None\<rparr>"
  have h: "0 \<le> ?A" "?A \<le> 1" "is_double ?A" "label ?lay = Some ''Layer 1''"
    using double_near_029 by simp_all
  have m: "py_int (float_mul ?A 100) = 28"
    using double_near_029 by blast
  have f: "format_02x 255 = ''ff''" "format_02x 0 = ''00''" "format_02x 28 = ''1c''"
    by code_simp+
  have pos: "0 < ?A" by simp
  from custom_alpha_encode_decode[OF h, of 255 0 0] obtain la la3 where
    "rgba_conv [PyInt 255, PyInt 0, PyInt 0, PyFloat ?A] = Inr ''#ff00001c''"
    "get_layer_attribs ?lay ''#ff00001c'' = Inr la" "alpha la = 28 / 255" "0 < ?A \<longrightarrow> alpha la < ?A"
    "rgba_conv [PyInt 255, PyInt 0, PyInt 0] = Inr ''#ff0000FF''"
    "get_layer_attribs ?lay ''#ff0000FF'' = Inr la3" "alpha la3 = 1"
    unfolding m f by auto
  with h pos show ?thesis by blast
qed

section \<open>Properties of the scan direction of a path\<close>

lemma fl_val_mk_float [simp]: "fl_val (mk_float s r) = r"
  by (simp add: mk_float_def fl_val_def)


lemma fl_val_float_sub [simp]: "fl_val (float_sub x y) = fl_val x - fl_val y"
  by (simp add: float_sub_def)






section \<open>The variable \<^verbatim>\<open>closed\<close> across the paths of a run\<close>

lemma seg_step_closed:
  assumes "seg_step n sg st = Inr st'"
  shows "closed st' = (if fst sg = ''Z'' then Some True else closed st)"
proof -
  obtain c a where sg: "sg = (c, a)" by (cases sg)
  consider "c = ''M''" | "c = ''L''" | "c = ''H''" | "c = ''V''" | "c = ''C''" | "c = ''S''"
    | "c = ''Q''" | "c = ''T''" | "c = ''A''" | "c = ''Z''"
    | "c \<notin> set [''M'', ''L'', ''H'', ''V'', ''C'', ''S'', ''Q'', ''T'', ''A'', ''Z'']"
    by auto
  then show ?thesis
  proof cases
    case 1 with assms sg show ?thesis by (auto simp: seg_step_def Let_def split: if_splits)
  next
    case 2 with assms sg show ?thesis by (auto simp: seg_step_def Let_def emit_line_def split: if_splits)
  next
    case 3 with assms sg show ?thesis by (auto simp: seg_step_def Let_def emit_line_def split: if_splits)
  next
    case 4 with assms sg show ?thesis by (auto simp: seg_step_def Let_def emit_line_def split: if_splits)
  next
    case 5 with assms sg show ?thesis
      by (auto simp: seg_step_def Let_def emit_curve_def split: if_splits sum.splits)
  next
    case 6 with assms sg show ?thesis
      by (auto simp: seg_step_def Let_def emit_curve_def split: if_splits sum.splits)
  next
    case 7 with assms sg show ?thesis
      by (auto simp: seg_step_def Let_def emit_curve_def split: if_splits sum.splits)
  next
    case 8 with assms sg show ?thesis
      by (auto simp: seg_step_def Let_def emit_curve_def split: if_splits sum.splits)
  next
    case 9 with assms sg show ?thesis by (auto simp: seg_step_def Let_def emit_line_def split: if_splits)
  next
    case 10 with assms sg show ?thesis by (auto simp: seg_step_def Let_def)
  next
    case 11 with assms sg show ?thesis by (auto simp: seg_step_def Let_def)
  qed
qed

lemma segs_loop_closed:
  "segs_loop n segs st = Inr st' \<Longrightarrow>
     closed st' = (if ''Z'' \<in> fst ` set segs then Some True else closed st)"
proof (induction segs arbitrary: st)
  case Nil
  then show ?case by simp
next
  case (Cons sg segs)
  then obtain st1 where s1: "seg_step n sg st = Inr st1" and s2: "segs_loop n segs st1 = Inr st'"
    by (auto split: sum.splits)
  from Cons.IH[OF s2] seg_step_closed[OF s1] show ?case by auto
qed

lemma path_item_never_lines:
  assumes "path_item str_float cfg layer_color layer_alpha cl sp = Inr r" and "cl \<noteq> Some False"
  shows "closed_out r = Some True \<and> (\<exists>outl a ps. element r = POLYGON outl a ps)"
proof -
  from assms(1) obtain st where st: "segs_loop (num_int_points cfg) (path_segs sp) (path_init cl) = Inr st"
    by (auto simp: path_item_def split: option.splits sum.splits)
  from segs_loop_closed[OF st] assms(2) have "closed st \<noteq> Some False"
    by (auto simp: path_init_def split: if_splits)
  with assms(1) st show ?thesis
    by (auto simp: path_item_def Let_def split: option.splits sum.splits bool.splits)
qed

lemma lines_branch_builds_style:
  assumes "segs_loop (num_int_points cfg) segs (path_init cl) = Inr st" and "closed st = Some False"
  shows "path_item str_float cfg layer_color layer_alpha cl \<lparr>path_style = Some s, path_segs = segs\<rparr>
     = Inr \<lparr>element = LINES (points2 st),
            messages = (if calc_rot cfg then fst (area_fast_path (concat (map lin_numbers (newp st)))) else []),
            written = (if apply_on_svg cfg
                       then Some (''fill:none;stroke:'' @ layer_color @ '';stroke-width:1;opacity:''
                                    @ str_float layer_alpha, newp st)
                       else None),
            closed_out = Some False\<rparr>"
  using assms by (simp add: path_item_def Let_def)

text \<open>
  Claim C1, evaluated. A run whose first path has no \<^verbatim>\<open>Z\<close> command stops with
  \<^verbatim>\<open>UnboundLocalError\<close> at \<^verbatim>\<open>if closed:\<close>. In a run of a closed path followed by a path
  without \<^verbatim>\<open>Z\<close>, the second path finds \<^verbatim>\<open>closed\<close> still true and is emitted as \<^verbatim>\<open>POLYGON\<close>.
\<close>

theorem closed_is_carried_over_from_earlier_paths:
  "paths_loop (\<lambda>a. ''0.5'') \<lparr>num_int_points = 10, apply_on_svg = False, calc_rot = False\<rparr>
      ''#1F77B4'' (1 / 2) None
      [\<lparr>path_style = Some ''fill:none;stroke:#000000;'',
        path_segs = [(''M'', [0, 0]), (''L'', [10, 10])]\<rparr>]
     = Inl UnboundLocalError
   \<and> paths_loop (\<lambda>a. ''0.5'') \<lparr>num_int_points = 10, apply_on_svg = False, calc_rot = False\<rparr>
      ''#1F77B4'' (1 / 2) None
      [\<lparr>path_style = Some ''fill:#000000;'',
        path_segs = [(''M'', [0, 0]), (''L'', [10, 0]), (''L'', [10, 10]), (''Z'', [])]\<rparr>,
       \<lparr>path_style = Some ''fill:none;stroke:#000000;'',
        path_segs = [(''M'', [0, 0]), (''L'', [10, 10])]\<rparr>]
     = Inr ([\<lparr>element = POLYGON ''false'' ''0 deg'' [0, Complex 10 0, Complex 10 10],
              messages = [], written = None, closed_out = Some True\<rparr>,
             \<lparr>element = POLYGON ''true'' ''0 deg'' [0, Complex 10 10],
              messages = [], written = None, closed_out = Some True\<rparr>],
            Some True)"
  by (simp add: path_item_def seg_step_def path_init_def emit_line_def gen_style_def
        match_fill_here_def Let_def complex_eq_iff)

text \<open>
  Claim C10, evaluated. A path without \<^verbatim>\<open>Z\<close> whose style has no fill property does not convert:
  as the first path of a run it stops with \<^verbatim>\<open>UnboundLocalError\<close>, and after a closed path it
  is handled as closed, so its style is parsed and \<^verbatim>\<open>gen_style\<close> raises.
\<close>

theorem open_path_without_fill_does_not_convert:
  "paths_loop (\<lambda>a. ''0.5'') \<lparr>num_int_points = 10, apply_on_svg = True, calc_rot = False\<rparr>
      ''#1F77B4'' (1 / 2) None
      [\<lparr>path_style = Some ''stroke:#000000;stroke-width:2'',
        path_segs = [(''M'', [0, 0]), (''L'', [10, 10])]\<rparr>]
     = Inl UnboundLocalError
   \<and> paths_loop (\<lambda>a. ''0.5'') \<lparr>num_int_points = 10, apply_on_svg = True, calc_rot = False\<rparr>
      ''#1F77B4'' (1 / 2) None
      [\<lparr>path_style = Some ''fill:#000000;'',
        path_segs = [(''M'', [0, 0]), (''L'', [10, 0]), (''L'', [10, 10]), (''Z'', [])]\<rparr>,
       \<lparr>path_style = Some ''stroke:#000000;stroke-width:2'',
        path_segs = [(''M'', [0, 0]), (''L'', [10, 10])]\<rparr>]
     = Inl AttributeError"
  by (simp add: path_item_def seg_step_def path_init_def emit_line_def gen_style_def
        match_fill_here_def Let_def complex_eq_iff)

end
